theory Spec2Isabelle
  imports Main
begin

section \<open>Menu items\<close>

text \<open>
  Modelled from the spec: the \<^verbatim>\<open>IMenuItem\<close> interface of \<^verbatim>\<open>../lib/menu-item\<close> is
  imported by \<^verbatim>\<open>main-process-proxy.ts\<close> but not part of it. A node has an identifier,
  an optional local action and an optional ordered sequence of children. Every field is
  optional (the synthetic root of \<^verbatim>\<open>findSubmenuItem\<close> is \<^verbatim>\<open>{ submenu: items }\<close>);
  \<open>None\<close> stands for a property that reads as \<^verbatim>\<open>undefined\<close>. The type \<open>'a\<close> names the
  callbacks: an action is known by its identity, and calling it is recorded (see
  \<open>invoked\<close> below). \<^verbatim>\<open>ISerializableMenuItem\<close> is the same shape with the action left
  out, so a serialised node is a node whose action is \<open>None\<close>.
\<close>

datatype 'a IMenuItem =
  IMenuItem (ident: "string option") (action: "'a option")
    (submenu: "'a IMenuItem list option")

lemma submenu_size_less:
  "item \<in> set items \<Longrightarrow> submenu item = Some sub \<Longrightarrow>
     size_list size sub < size_list size items"
proof (induction items)
  case Nil
  then show ?case by simp
next
  case (Cons x xs)
  show ?case
  proof (cases "item = x")
    case True
    with Cons.prems(2) show ?thesis by (cases x) simp
  next
    case False
    with Cons show ?thesis by simp
  qed
qed

subsection \<open>serializeMenuItems\<close>

text \<open>
  \<^verbatim>\<open>items.map(item => ({ ...item, action: undefined,
      submenu: item.submenu ? serializeMenuItems(item.submenu) : undefined }))\<close>
  The spread copies the remaining properties (the identifier); an array, also an empty one,
  is truthy, so the test \<^verbatim>\<open>item.submenu ?\<close> asks whether the submenu is defined.
\<close>

function serializeMenuItems :: "'a IMenuItem list \<Rightarrow> 'a IMenuItem list" where
  "serializeMenuItems items =
     map (\<lambda>item. IMenuItem (ident item) None
                    (case submenu item of
                       Some sub \<Rightarrow> Some (serializeMenuItems sub)
                     | None \<Rightarrow> None))
         items"
  by pat_completeness auto
termination
  by (relation "measure (size_list size)") (auto simp: submenu_size_less)

declare serializeMenuItems.simps [simp del]

subsection \<open>findSubmenuItem\<close>

text \<open>
  Reading a property of \<^verbatim>\<open>undefined\<close> throws a \<^verbatim>\<open>TypeError\<close> in JavaScript; reading an
  array at a position it does not have (a negative one, or one beyond the end) yields
  \<^verbatim>\<open>undefined\<close>. The indices the host returns are taken to be integers.
\<close>

datatype exn = TypeError

definition get_submenu :: "'a IMenuItem option \<Rightarrow> exn + 'a IMenuItem list option" where
  "get_submenu v = (case v of None \<Rightarrow> Inl TypeError | Some m \<Rightarrow> Inr (submenu m))"

definition get_action :: "'a IMenuItem option \<Rightarrow> exn + 'a option" where
  "get_action v = (case v of None \<Rightarrow> Inl TypeError | Some m \<Rightarrow> Inr (action m))"

definition array_index :: "'x list \<Rightarrow> int \<Rightarrow> 'x option" where
  "array_index xs i = (if 0 \<le> i \<and> i < int (length xs) then Some (xs ! nat i) else None)"

definition syntheticRoot :: "'a IMenuItem list \<Rightarrow> 'a IMenuItem" where
  "syntheticRoot currentContextualMenuItems =
     IMenuItem None None (Some currentContextualMenuItems)"

text \<open>
  The \<^verbatim>\<open>for (const index of indices)\<close> loop, on the value of \<^verbatim>\<open>foundMenuItem\<close>. The guard
  is evaluated left to right: \<^verbatim>\<open>foundMenuItem.submenu\<close> is read only when
  \<^verbatim>\<open>foundMenuItem\<close> is defined, and the read in \<^verbatim>\<open>foundMenuItem.submenu[index]\<close> sees
  the value the guard has just seen.
\<close>

fun findSubmenuItem_loop ::
  "'a IMenuItem option \<Rightarrow> int list \<Rightarrow> exn + 'a IMenuItem option" where
  "findSubmenuItem_loop foundMenuItem [] = Inr foundMenuItem"
| "findSubmenuItem_loop foundMenuItem (index # rest) =
     (if foundMenuItem = None then Inr None
      else case get_submenu foundMenuItem of
             Inl e \<Rightarrow> Inl e
           | Inr None \<Rightarrow> Inr None
           | Inr (Some sub) \<Rightarrow> findSubmenuItem_loop (array_index sub index) rest)"

definition findSubmenuItem ::
  "'a IMenuItem list \<Rightarrow> int list \<Rightarrow> exn + 'a IMenuItem option" where
  "findSubmenuItem currentContextualMenuItems indices =
     findSubmenuItem_loop (Some (syntheticRoot currentContextualMenuItems)) indices"

section \<open>The transport and the proxies\<close>

text \<open>
  The channel names this file passes to \<^verbatim>\<open>sendProxy\<close> (keys of \<^verbatim>\<open>RequestChannels\<close>) and
  to \<^verbatim>\<open>invokeProxy\<close> (keys of \<^verbatim>\<open>RequestResponseChannels\<close>).
\<close>

datatype RequestChannels =
    select_all_window_contents
  | update_menu_state
  | renderer_ready
  | execute_menu_item_by_id
  | show_item_in_folder
  | show_folder_contents
  | show_certificate_trust_dialog
  | move_to_applications_folder
  | get_app_menu
  | update_preferred_app_menu_item_labels
  | uncaught_exception
  | send_error_report

datatype RequestResponseChannels =
    is_window_focused
  | open_external
  | move_to_trash
  | show_contextual_menu
  | resolve_proxy
  | show_open_dialog

datatype 'v ipc_call =
    Send RequestChannels "'v list"
  | Invoke RequestResponseChannels "'v list"

text \<open>
  Modelled from the spec: the transport \<^verbatim>\<open>../lib/ipc-renderer\<close> is an external
  collaborator: \<^verbatim>\<open>send(name, ...args)\<close> is fire-and-forget, \<^verbatim>\<open>invoke(name, ...args)\<close>
  gives an eventual value or failure. The renderer's world keeps the calls that reached
  the transport in order, what the host answers to a request (\<open>Inl\<close> a failure, \<open>Inr\<close> the
  value the promise resolves with), and the local actions that have been called.
\<close>

record ('v, 'e, 'r, 'a) renderer =
  transport_log :: "'v ipc_call list"
  host_reply :: "RequestResponseChannels \<Rightarrow> 'v list \<Rightarrow> 'e + 'r"
  invoked :: "'a list"

definition ipcRenderer_send ::
  "RequestChannels \<Rightarrow> 'v list \<Rightarrow> ('v, 'e, 'r, 'a) renderer
     \<Rightarrow> unit \<times> ('v, 'e, 'r, 'a) renderer" where
  "ipcRenderer_send channel args w =
     ((), w\<lparr>transport_log := transport_log w @ [Send channel args]\<rparr>)"

definition ipcRenderer_invoke ::
  "RequestResponseChannels \<Rightarrow> 'v list \<Rightarrow> ('v, 'e, 'r, 'a) renderer
     \<Rightarrow> ('e + 'r) \<times> ('v, 'e, 'r, 'a) renderer" where
  "ipcRenderer_invoke channel args w =
     (host_reply w channel args, w\<lparr>transport_log := transport_log w @ [Invoke channel args]\<rparr>)"

definition invokeProxy ::
  "RequestResponseChannels \<Rightarrow> 'v list \<Rightarrow> ('v, 'e, 'r, 'a) renderer
     \<Rightarrow> ('e + 'r) \<times> ('v, 'e, 'r, 'a) renderer" where
  "invokeProxy channel = (\<lambda>args. ipcRenderer_invoke channel args)"

definition sendProxy ::
  "RequestChannels \<Rightarrow> 'v list \<Rightarrow> ('v, 'e, 'r, 'a) renderer
     \<Rightarrow> unit \<times> ('v, 'e, 'r, 'a) renderer" where
  "sendProxy channel = (\<lambda>args. ipcRenderer_send channel args)"

section \<open>showContextualMenu\<close>

text \<open>The two arguments of the \<^verbatim>\<open>show-contextual-menu\<close> channel; \<open>showContextualMenu_proxy\<close> is the source's \<^verbatim>\<open>_showContextualMenu\<close>.\<close>

datatype 'a menu_arg = ItemsArg "'a IMenuItem list" | FlagArg bool

text \<open>How the promise of the asynchronous function settles when it does not resolve.\<close>

datatype 'e rejection = HostFailure 'e | Thrown exn

definition call_action :: "'a \<Rightarrow> ('v, 'e, 'r, 'a) renderer \<Rightarrow> ('v, 'e, 'r, 'a) renderer" where
  "call_action f w = w\<lparr>invoked := invoked w @ [f]\<rparr>"

definition showContextualMenu_proxy ::
  "'a menu_arg list \<Rightarrow> ('a menu_arg, 'e, int list option, 'a) renderer
     \<Rightarrow> ('e + int list option) \<times> ('a menu_arg, 'e, int list option, 'a) renderer" where
  "showContextualMenu_proxy = invokeProxy show_contextual_menu"

text \<open>
  \<open>mergeWithSpellcheckSuggestions\<close> defaults to \<^verbatim>\<open>false\<close> when the caller leaves it out.
  The host's answer is an index path, or \<^verbatim>\<open>null\<close> (\<open>None\<close>) when nothing was chosen. An
  exception inside the asynchronous function rejects its promise.
\<close>

definition showContextualMenu ::
  "'a IMenuItem list \<Rightarrow> bool option \<Rightarrow> ('a menu_arg, 'e, int list option, 'a) renderer
     \<Rightarrow> ('e rejection + unit) \<times> ('a menu_arg, 'e, int list option, 'a) renderer" where
  "showContextualMenu items mergeWithSpellcheckSuggestions w =
     (let merge = (case mergeWithSpellcheckSuggestions of None \<Rightarrow> False | Some b \<Rightarrow> b);
          (reply, w1) = showContextualMenu_proxy [ItemsArg (serializeMenuItems items), FlagArg merge] w
      in case reply of
           Inl e \<Rightarrow> (Inl (HostFailure e), w1)
         | Inr None \<Rightarrow> (Inr (), w1)
         | Inr (Some indices) \<Rightarrow>
             (case findSubmenuItem items indices of
                Inl x \<Rightarrow> (Inl (Thrown x), w1)
              | Inr menuItem \<Rightarrow>
                  if menuItem = None then (Inr (), w1)
                  else (case get_action menuItem of
                          Inl x \<Rightarrow> (Inl (Thrown x), w1)
                        | Inr None \<Rightarrow> (Inr (), w1)
                        | Inr (Some f) \<Rightarrow> (Inr (), call_action f w1))))"

section \<open>getIpcFriendlyError\<close>

text \<open>
  An \<^verbatim>\<open>Error\<close> object as this function reads it: three properties, each of which may read
  as \<^verbatim>\<open>undefined\<close>.
\<close>

record Error =
  error_message :: "string option"
  error_name :: "string option"
  error_stack :: "string option"

text \<open>The object literal the function returns.\<close>

record IpcFriendlyError =
  message :: string
  name :: string
  stack :: "string option"

text \<open>
  \<^verbatim>\<open>a || b\<close> on a string that may be undefined: both \<^verbatim>\<open>undefined\<close> and the empty string
  are falsy. \<^verbatim>\<open>`${v}`\<close> of such a value is the string itself, or \<^verbatim>\<open>"undefined"\<close>.
\<close>

definition falsy :: "string option \<Rightarrow> bool" where
  "falsy v = (case v of None \<Rightarrow> True | Some s \<Rightarrow> s = [])"

definition or_string :: "string option \<Rightarrow> string \<Rightarrow> string" where
  "or_string a b = (if falsy a then b else the a)"

definition or_undefined :: "string option \<Rightarrow> string option" where
  "or_undefined a = (if falsy a then None else a)"

definition template :: "string option \<Rightarrow> string" where
  "template v = (case v of None \<Rightarrow> ''undefined'' | Some s \<Rightarrow> s)"

text \<open>
  \<^verbatim>\<open>`${error}`\<close> calls the object's \<^verbatim>\<open>toString\<close> method, which a subclass may override:
  the conversion is the parameter \<open>toStr\<close>. \<open>Error_toString\<close> is the built-in
  \<^verbatim>\<open>Error.prototype.toString\<close>: the name defaults to \<^verbatim>\<open>"Error"\<close> and the message to the
  empty string, and the two are joined by a colon and a space when neither is empty.
\<close>

definition Error_toString :: "Error \<Rightarrow> string" where
  "Error_toString error =
     (let nm = (case error_name error of None \<Rightarrow> ''Error'' | Some s \<Rightarrow> s);
          msg = (case error_message error of None \<Rightarrow> [] | Some s \<Rightarrow> s)
      in if nm = [] then msg else if msg = [] then nm else nm @ '': '' @ msg)"

definition getIpcFriendlyError :: "(Error \<Rightarrow> string) \<Rightarrow> Error \<Rightarrow> IpcFriendlyError" where
  "getIpcFriendlyError toStr error =
     \<lparr> message = or_string (error_message error) (toStr error),
       name = or_string (error_name error) (template (error_name error)),
       stack = or_undefined (error_stack error) \<rparr>"

section \<open>The menu tree as objects in a store\<close>

text \<open>
  In the program a menu tree is a graph of objects: an array holds references to item
  objects, and an item's \<^verbatim>\<open>submenu\<close> property holds a reference to another array. To state
  that an operation leaves the caller's objects alone, the objects live in a store: the
  address of an object is its position, a new object is put at the end, and nothing in
  this model removes an object. The functions below return \<open>None\<close> when they get stuck:
  on an address that holds no object or an object of the wrong kind, which the types of
  the program exclude, or, for the recursive ones, when the nesting is deeper than
  \<open>fuel\<close> (objects that refer to each other in a cycle are nested without end).
\<close>

type_synonym addr = nat

datatype 'a obj =
    ItemObj "string option" "'a option" "addr option"
  | ArrayObj "addr list"

type_synonym 'a store = "'a obj list"

definition deref :: "'a store \<Rightarrow> addr \<Rightarrow> 'a obj option" where
  "deref h a = (if a < length h then Some (h ! a) else None)"

definition alloc :: "'a store \<Rightarrow> 'a obj \<Rightarrow> 'a store \<times> addr" where
  "alloc h ob = (h @ [ob], length h)"

text \<open>
  \<^verbatim>\<open>Array.prototype.map\<close> with a callback that may create objects: the elements are visited
  in order and the store is handed on from one call to the next.
\<close>

primrec array_map ::
  "('h \<Rightarrow> 'x \<Rightarrow> ('h \<times> 'y) option) \<Rightarrow> 'h \<Rightarrow> 'x list \<Rightarrow> ('h \<times> 'y list) option" where
  "array_map f h [] = Some (h, [])"
| "array_map f h (x # xs) =
     (case f h x of
        None \<Rightarrow> None
      | Some (h1, y) \<Rightarrow>
          (case array_map f h1 xs of
             None \<Rightarrow> None
           | Some (h2, ys) \<Rightarrow> Some (h2, y # ys)))"

text \<open>
  The callback \<^verbatim>\<open>item => ({ ...item, action: undefined, submenu: ... })\<close>: it reads the item,
  serialises the submenu if there is one, and creates a new object. It writes to no
  existing object.
\<close>

definition serializeItem_store ::
  "('a store \<Rightarrow> addr \<Rightarrow> ('a store \<times> addr) option)
     \<Rightarrow> 'a store \<Rightarrow> addr \<Rightarrow> ('a store \<times> addr) option" where
  "serializeItem_store recur h item =
     (case deref h item of
        Some (ItemObj i act sub) \<Rightarrow>
          (case sub of
             Some sa \<Rightarrow>
               (case recur h sa of
                  None \<Rightarrow> None
                | Some (h1, sa') \<Rightarrow> Some (alloc h1 (ItemObj i None (Some sa'))))
           | None \<Rightarrow> Some (alloc h (ItemObj i None None)))
      | _ \<Rightarrow> None)"

text \<open>\<open>serializeMenuItems\<close> on the store; the result is the address of the new array.\<close>

primrec serializeMenuItems_store ::
  "nat \<Rightarrow> 'a store \<Rightarrow> addr \<Rightarrow> ('a store \<times> addr) option" where
  "serializeMenuItems_store 0 = (\<lambda>h items. None)"
| "serializeMenuItems_store (Suc fuel) = (\<lambda>h items.
     (case deref h items of
        Some (ArrayObj elems) \<Rightarrow>
          (case array_map (serializeItem_store (serializeMenuItems_store fuel)) h elems of
             None \<Rightarrow> None
           | Some (h1, elems') \<Rightarrow> Some (alloc h1 (ArrayObj elems')))
      | _ \<Rightarrow> None))"

text \<open>
  \<open>findSubmenuItem\<close> on the store: the synthetic root is a new object, and the loop moves
  the local variable \<^verbatim>\<open>foundMenuItem\<close> from reference to reference. The result is the
  address of the found object (the object itself, not a copy), or \<open>None\<close> for \<^verbatim>\<open>undefined\<close>.
\<close>

fun findSubmenuItem_store_loop ::
  "'a store \<Rightarrow> addr option \<Rightarrow> int list \<Rightarrow> addr option option" where
  "findSubmenuItem_store_loop h foundMenuItem [] = Some foundMenuItem"
| "findSubmenuItem_store_loop h foundMenuItem (index # rest) =
     (case foundMenuItem of
        None \<Rightarrow> Some None
      | Some found \<Rightarrow>
          (case deref h found of
             Some (ItemObj i act sub) \<Rightarrow>
               (case sub of
                  None \<Rightarrow> Some None
                | Some sa \<Rightarrow>
                    (case deref h sa of
                       Some (ArrayObj elems) \<Rightarrow>
                         findSubmenuItem_store_loop h (array_index elems index) rest
                     | _ \<Rightarrow> None))
           | _ \<Rightarrow> None))"

definition findSubmenuItem_store ::
  "'a store \<Rightarrow> addr \<Rightarrow> int list \<Rightarrow> 'a store \<times> addr option option" where
  "findSubmenuItem_store h currentContextualMenuItems indices =
     (let (h1, root) = alloc h (ItemObj None None (Some currentContextualMenuItems))
      in (h1, findSubmenuItem_store_loop h1 (Some root) indices))"

text \<open>
  The tree that the objects reachable from an address make up, down to a given depth:
  this is how a store is read as a value of type \<open>'a IMenuItem list\<close>.
\<close>

definition readItem ::
  "('a store \<Rightarrow> addr \<Rightarrow> 'a IMenuItem list option) \<Rightarrow> 'a store \<Rightarrow> addr \<Rightarrow> 'a IMenuItem option" where
  "readItem readSub h item =
     (case deref h item of
        Some (ItemObj i act sub) \<Rightarrow>
          (case sub of
             None \<Rightarrow> Some (IMenuItem i act None)
           | Some sa \<Rightarrow>
               (case readSub h sa of
                  None \<Rightarrow> None
                | Some items \<Rightarrow> Some (IMenuItem i act (Some items))))
      | _ \<Rightarrow> None)"

primrec readItems :: "nat \<Rightarrow> 'a store \<Rightarrow> addr \<Rightarrow> 'a IMenuItem list option" where
  "readItems 0 = (\<lambda>h items. None)"
| "readItems (Suc depth) = (\<lambda>h items.
     (case deref h items of
        Some (ArrayObj elems) \<Rightarrow> those (map (readItem (readItems depth) h) elems)
      | _ \<Rightarrow> None))"

text \<open>The example tree as five objects; the top-level array is at address 4.\<close>

definition exampleStore :: "string store" where
  "exampleStore =
     [ItemObj (Some ''A1'') (Some ''f'') None,
      ArrayObj [0],
      ItemObj (Some ''A'') None (Some 1),
      ItemObj (Some ''B'') (Some ''g'') None,
      ArrayObj [2, 3]]"

text \<open>The callback of \<open>serializeMenuItems\<close>, on trees.\<close>

definition serialized :: "'a IMenuItem \<Rightarrow> 'a IMenuItem" where
  "serialized item =
     IMenuItem (ident item) None
       (case submenu item of Some sub \<Rightarrow> Some (serializeMenuItems sub) | None \<Rightarrow> None)"

section \<open>What the specification says, in its own words\<close>

text \<open>
  A path is valid from a node when each index is a position of the submenu reached so
  far; following a valid path positionally reaches \<open>nodeAt\<close>.
\<close>

fun validPath :: "'a IMenuItem \<Rightarrow> int list \<Rightarrow> bool" where
  "validPath m [] = True"
| "validPath m (i # rest) =
     (case submenu m of
        None \<Rightarrow> False
      | Some sub \<Rightarrow> 0 \<le> i \<and> i < int (length sub) \<and> validPath (sub ! nat i) rest)"

fun nodeAt :: "'a IMenuItem \<Rightarrow> int list \<Rightarrow> 'a IMenuItem" where
  "nodeAt m [] = m"
| "nodeAt m (i # rest) = nodeAt (the (submenu m) ! nat i) rest"

text \<open>
  A path is malformed from a node when it goes on below a node without a submenu, or some
  index is out of range at its level (so that the node it would go on from is undefined).
\<close>

fun malformedPath :: "'a IMenuItem \<Rightarrow> int list \<Rightarrow> bool" where
  "malformedPath m [] = False"
| "malformedPath m (i # rest) =
     (case submenu m of
        None \<Rightarrow> True
      | Some sub \<Rightarrow> i < 0 \<or> int (length sub) \<le> i \<or> malformedPath (sub ! nat i) rest)"

text \<open>No node of the tree below (and including) this one carries an action.\<close>

fun noAction :: "'a IMenuItem \<Rightarrow> bool" where
  "noAction (IMenuItem i a s) =
     (a = None \<and> (case s of None \<Rightarrow> True | Some sub \<Rightarrow> list_all noAction sub))"

text \<open>
  The structure of a tree apart from its actions: the identifiers, the order of the
  children and the nesting.
\<close>

datatype skeleton = Skeleton "string option" "skeleton list option"

fun skeletonOf :: "'a IMenuItem \<Rightarrow> skeleton" where
  "skeletonOf (IMenuItem i a s) =
     Skeleton i (case s of None \<Rightarrow> None | Some sub \<Rightarrow> Some (map skeletonOf sub))"

text \<open>
  The tree of the specification's example scenario, with the actions \<open>f\<close> and \<open>g\<close> named
  by strings.
\<close>

definition exampleItems :: "string IMenuItem list" where
  "exampleItems =
     [IMenuItem (Some ''A'') None (Some [IMenuItem (Some ''A1'') (Some ''f'') None]),
      IMenuItem (Some ''B'') (Some ''g'') None]"

text \<open>A renderer whose host answers every request with the same path, or with \<^verbatim>\<open>null\<close>.\<close>

definition exampleWorld ::
  "int list option \<Rightarrow> (string menu_arg, string, int list option, string) renderer" where
  "exampleWorld answer =
     \<lparr> transport_log = [], host_reply = (\<lambda>channel args. Inr answer), invoked = [] \<rparr>"

text \<open>Errors with an empty message and stack, with no name, and with an empty name.\<close>

definition exampleError :: Error where
  "exampleError =
     \<lparr> error_message = Some [], error_name = Some ''RangeError'', error_stack = Some [] \<rparr>"

definition namelessError :: Error where
  "namelessError =
     \<lparr> error_message = Some ''boom'', error_name = None, error_stack = None \<rparr>"

definition unnamedError :: Error where
  "unnamedError =
     \<lparr> error_message = Some ''boom'', error_name = Some [], error_stack = None \<rparr>"

section \<open>Properties of the menu tree operations\<close>

lemma serializeMenuItems_Nil [simp]: "serializeMenuItems [] = []"
  by (subst serializeMenuItems.simps) simp

lemma serializeMenuItems_Cons [simp]:
  "serializeMenuItems (item # items) =
     IMenuItem (ident item) None
       (case submenu item of Some sub \<Rightarrow> Some (serializeMenuItems sub) | None \<Rightarrow> None)
       # serializeMenuItems items"
  using serializeMenuItems.simps [of "item # items"] serializeMenuItems.simps [of items]
  by simp

lemma loop_valid:
  "validPath m path \<Longrightarrow> findSubmenuItem_loop (Some m) path = Inr (Some (nodeAt m path))"
proof (induction path arbitrary: m)
  case Nil
  show ?case by simp
next
  case (Cons i rest)
  from Cons.prems obtain sub where sub: "submenu m = Some sub"
    and rng: "0 \<le> i" "i < int (length sub)" and rest: "validPath (sub ! nat i) rest"
    by (auto split: option.splits)
  have "findSubmenuItem_loop (Some m) (i # rest) = findSubmenuItem_loop (Some (sub ! nat i)) rest"
    using sub rng by (simp add: get_submenu_def array_index_def)
  also have "\<dots> = Inr (Some (nodeAt (sub ! nat i) rest))"
    by (rule Cons.IH [OF rest])
  finally show ?case using sub by simp
qed

lemma loop_undefined: "findSubmenuItem_loop None path = Inr None"
  by (cases path) simp_all

lemma loop_malformed:
  "malformedPath m path \<Longrightarrow> findSubmenuItem_loop (Some m) path = Inr None"
proof (induction path arbitrary: m)
  case Nil
  then show ?case by simp
next
  case (Cons i rest)
  show ?case
  proof (cases "submenu m")
    case None
    then show ?thesis by (simp add: get_submenu_def)
  next
    case (Some sub)
    show ?thesis
    proof (cases "0 \<le> i \<and> i < int (length sub)")
      case True
      with Cons.prems Some have "malformedPath (sub ! nat i) rest" by auto
      from Cons.IH [OF this] True Some show ?thesis
        by (simp add: get_submenu_def array_index_def)
    next
      case False
      then have "array_index sub i = None" by (auto simp: array_index_def)
      with Some show ?thesis
        by (simp add: get_submenu_def loop_undefined)
    qed
  qed
qed

text \<open>The two descriptions of a path are complementary.\<close>

lemma malformedPath_iff: "malformedPath m path = (\<not> validPath m path)"
proof (induction path arbitrary: m)
  case Nil
  show ?case by simp
next
  case (Cons i rest)
  show ?case
  proof (cases "submenu m")
    case None
    then show ?thesis by simp
  next
    case (Some sub)
    with Cons.IH [of "sub ! nat i"] show ?thesis by (simp add: not_le not_less)
  qed
qed

text \<open>Whatever the path, the traversal returns; it has no way to throw.\<close>

lemma findSubmenuItem_returns:
  "findSubmenuItem items path =
     Inr (if validPath (syntheticRoot items) path
          then Some (nodeAt (syntheticRoot items) path) else None)"
  unfolding findSubmenuItem_def
  by (simp add: loop_valid loop_malformed malformedPath_iff)

lemma noAction_serializeMenuItems: "list_all noAction (serializeMenuItems items)"
proof (induction items rule: serializeMenuItems.induct)
  case (1 items)
  have "noAction (IMenuItem (ident item) None
          (case submenu item of Some sub \<Rightarrow> Some (serializeMenuItems sub) | None \<Rightarrow> None))"
    if "item \<in> set items" for item
    using "1.IH" [OF that] by (simp split: option.splits)
  then show ?case
    by (subst serializeMenuItems.simps) (simp add: list_all_iff)
qed

lemma skeletonOf_serializeMenuItems:
  "map skeletonOf (serializeMenuItems items) = map skeletonOf items"
proof (induction items rule: serializeMenuItems.induct)
  case (1 items)
  have "skeletonOf (IMenuItem (ident item) None
          (case submenu item of Some sub \<Rightarrow> Some (serializeMenuItems sub) | None \<Rightarrow> None))
        = skeletonOf item"
    if "item \<in> set items" for item
    using "1.IH" [OF that] by (cases item) (simp split: option.splits)
  then show ?case
    by (subst serializeMenuItems.simps) simp
qed

lemma serializeMenuItems_twice:
  "serializeMenuItems (serializeMenuItems items) = serializeMenuItems items"
proof (induction items rule: serializeMenuItems.induct)
  case (1 items)
  let ?f = "\<lambda>item. IMenuItem (ident item) None
              (case submenu item of Some sub \<Rightarrow> Some (serializeMenuItems sub) | None \<Rightarrow> None)"
  have step: "?f (?f item) = ?f item" if "item \<in> set items" for item
    using "1.IH" [OF that] by (simp split: option.splits)
  have "serializeMenuItems (serializeMenuItems items) = map ?f (map ?f items)"
    by (subst serializeMenuItems.simps, subst serializeMenuItems.simps) (rule refl)
  also have "\<dots> = map ?f items"
    using step by simp
  also have "\<dots> = serializeMenuItems items"
    by (subst serializeMenuItems.simps) (rule refl)
  finally show ?case .
qed

lemma exampleItems_valid_00: "validPath (syntheticRoot exampleItems) [0, 0]"
  by (simp add: syntheticRoot_def exampleItems_def)

lemma exampleItems_valid_1: "validPath (syntheticRoot exampleItems) [1]"
  by (simp add: syntheticRoot_def exampleItems_def)

lemma exampleItems_malformed_5: "malformedPath (syntheticRoot exampleItems) [5]"
  by (simp add: syntheticRoot_def exampleItems_def)

lemma exampleItems_malformed_10: "malformedPath (syntheticRoot exampleItems) [1, 0]"
  by (simp add: syntheticRoot_def exampleItems_def)

lemma exampleItems_malformed_neg: "malformedPath (syntheticRoot exampleItems) [- 1, 0]"
  by (simp add: syntheticRoot_def exampleItems_def)

text \<open>
  C1. For every menu tree and every path whose indices are all valid child positions at
  each successive level, starting from the synthetic root whose submenu is the top-level
  sequence, \<open>findSubmenuItem\<close> returns exactly the node reached by following those
  indices positionally.
\<close>

theorem findSubmenuItem_valid_path:
  "validPath (syntheticRoot items) path \<Longrightarrow>
     findSubmenuItem items path = Inr (Some (nodeAt (syntheticRoot items) path))"
  unfolding findSubmenuItem_def by (rule loop_valid)

text \<open>The example scenario: \<open>[0, 0]\<close> resolves to the node A1 and \<open>[1]\<close> to the node B.\<close>

theorem findSubmenuItem_valid_path_witness:
  "validPath (syntheticRoot exampleItems) [0, 0]
   \<and> findSubmenuItem exampleItems [0, 0] = Inr (Some (IMenuItem (Some ''A1'') (Some ''f'') None))
   \<and> validPath (syntheticRoot exampleItems) [1]
   \<and> findSubmenuItem exampleItems [1] = Inr (Some (IMenuItem (Some ''B'') (Some ''g'') None))"
  using findSubmenuItem_valid_path [OF exampleItems_valid_00]
    findSubmenuItem_valid_path [OF exampleItems_valid_1]
    exampleItems_valid_00 exampleItems_valid_1
  by (simp add: syntheticRoot_def exampleItems_def)

text \<open>
  C2. For every menu tree, the output of \<open>serializeMenuItems\<close> carries no action at any
  node at any depth, and is otherwise structurally identical to the input: the same
  identifiers, the same order of children and the same nesting, submenus converted
  recursively.
\<close>

theorem serializeMenuItems_strips_actions_only:
  "list_all noAction (serializeMenuItems items)
   \<and> map skeletonOf (serializeMenuItems items) = map skeletonOf items"
  by (simp add: noAction_serializeMenuItems skeletonOf_serializeMenuItems)

theorem serializeMenuItems_strips_actions_only_witness:
  "serializeMenuItems exampleItems =
     [IMenuItem (Some ''A'') None (Some [IMenuItem (Some ''A1'') None None]),
      IMenuItem (Some ''B'') None None]
   \<and> list_all noAction (serializeMenuItems exampleItems)
   \<and> map skeletonOf (serializeMenuItems exampleItems) =
       [Skeleton (Some ''A'') (Some [Skeleton (Some ''A1'') None]), Skeleton (Some ''B'') None]"
  using serializeMenuItems_strips_actions_only [of exampleItems]
  by (simp add: exampleItems_def)

text \<open>
  C3. For every menu tree and every path, if some index is out of range at its level, or
  the path descends through a node that is undefined or has no submenu, then
  \<open>findSubmenuItem\<close> returns undefined and does not throw: the result is the value
  \<open>Inr None\<close>, never an exception \<open>Inl e\<close>.
\<close>

theorem findSubmenuItem_malformed_path:
  "malformedPath (syntheticRoot items) path \<Longrightarrow> findSubmenuItem items path = Inr None"
  unfolding findSubmenuItem_def by (rule loop_malformed)

text \<open>
  An index beyond the end, a path below a node without a submenu, and a negative index
  followed by a further step.
\<close>

theorem findSubmenuItem_malformed_path_witness:
  "malformedPath (syntheticRoot exampleItems) [5]
   \<and> findSubmenuItem exampleItems [5] = Inr None
   \<and> malformedPath (syntheticRoot exampleItems) [1, 0]
   \<and> findSubmenuItem exampleItems [1, 0] = Inr None
   \<and> malformedPath (syntheticRoot exampleItems) [- 1, 0]
   \<and> findSubmenuItem exampleItems [- 1, 0] = Inr None"
  using findSubmenuItem_malformed_path [OF exampleItems_malformed_5]
    findSubmenuItem_malformed_path [OF exampleItems_malformed_10]
    findSubmenuItem_malformed_path [OF exampleItems_malformed_neg]
    exampleItems_malformed_5 exampleItems_malformed_10 exampleItems_malformed_neg
  by simp

text \<open>
  C7. \<open>serializeMenuItems\<close> is idempotent: applied to its own output it yields an equal
  tree.
\<close>

theorem serializeMenuItems_idempotent:
  "serializeMenuItems (serializeMenuItems items) = serializeMenuItems items"
  by (rule serializeMenuItems_twice)

theorem serializeMenuItems_idempotent_witness:
  "serializeMenuItems (serializeMenuItems exampleItems) =
     [IMenuItem (Some ''A'') None (Some [IMenuItem (Some ''A1'') None None]),
      IMenuItem (Some ''B'') None None]"
  using serializeMenuItems_idempotent [of exampleItems]
  by (simp add: exampleItems_def)

section \<open>Properties of showContextualMenu, the proxies and getIpcFriendlyError\<close>

text \<open>The function with its proxy call and property reads written out.\<close>

lemma showContextualMenu_unfold:
  "showContextualMenu items merge w =
     (let w1 = w\<lparr>transport_log := transport_log w @
                  [Invoke show_contextual_menu
                     [ItemsArg (serializeMenuItems items),
                      FlagArg (case merge of None \<Rightarrow> False | Some b \<Rightarrow> b)]]\<rparr>
      in case host_reply w show_contextual_menu
                [ItemsArg (serializeMenuItems items),
                 FlagArg (case merge of None \<Rightarrow> False | Some b \<Rightarrow> b)] of
           Inl e \<Rightarrow> (Inl (HostFailure e), w1)
         | Inr None \<Rightarrow> (Inr (), w1)
         | Inr (Some indices) \<Rightarrow>
             (case findSubmenuItem items indices of
                Inl x \<Rightarrow> (Inl (Thrown x), w1)
              | Inr None \<Rightarrow> (Inr (), w1)
              | Inr (Some m) \<Rightarrow>
                  (case action m of
                     None \<Rightarrow> (Inr (), w1)
                   | Some f \<Rightarrow> (Inr (), w1\<lparr>invoked := invoked w1 @ [f]\<rparr>))))"
  by (simp add: showContextualMenu_def showContextualMenu_proxy_def invokeProxy_def
      ipcRenderer_invoke_def get_action_def call_action_def Let_def
      split: sum.splits option.splits)

text \<open>
  C4. \<open>showContextualMenu\<close> calls no action when the host answers with the no-selection
  sentinel, when the path does not resolve to a node, and when the resolved node carries
  no action; in particular the empty path resolves to the synthetic root, which has no
  action, so nothing is called.
\<close>

theorem showContextualMenu_no_invocation:
  assumes reply: "host_reply w show_contextual_menu
             [ItemsArg (serializeMenuItems items),
              FlagArg (case merge of None \<Rightarrow> False | Some b \<Rightarrow> b)] = reply"
    and quiet: "reply = Inr None
      \<or> (\<exists>indices. reply = Inr (Some indices) \<and> findSubmenuItem items indices = Inr None)
      \<or> (\<exists>indices m. reply = Inr (Some indices)
            \<and> findSubmenuItem items indices = Inr (Some m) \<and> action m = None)
      \<or> reply = Inr (Some [])"
  shows "invoked (snd (showContextualMenu items merge w)) = invoked w"
proof -
  have root: "findSubmenuItem items [] = Inr (Some (syntheticRoot items))"
    by (simp add: findSubmenuItem_def)
  have "action (syntheticRoot items) = None"
    by (simp add: syntheticRoot_def)
  with quiet root consider "reply = Inr None"
    | indices where "reply = Inr (Some indices)" "findSubmenuItem items indices = Inr None"
    | indices m where "reply = Inr (Some indices)"
        "findSubmenuItem items indices = Inr (Some m)" "action m = None"
    by blast
  then show ?thesis
  proof cases
    case 1
    with reply show ?thesis by (simp add: showContextualMenu_unfold)
  next
    case 2
    with reply show ?thesis by (simp add: showContextualMenu_unfold)
  next
    case 3
    with reply show ?thesis by (simp add: showContextualMenu_unfold)
  qed
qed

text \<open>Otherwise the action of the resolved node is called, once.\<close>

lemma showContextualMenu_invokes:
  assumes "host_reply w show_contextual_menu
             [ItemsArg (serializeMenuItems items),
              FlagArg (case merge of None \<Rightarrow> False | Some b \<Rightarrow> b)] = Inr (Some indices)"
    and "findSubmenuItem items indices = Inr (Some m)" and "action m = Some f"
  shows "invoked (snd (showContextualMenu items merge w)) = invoked w @ [f]"
  using assms by (simp add: showContextualMenu_unfold)

text \<open>The host answers \<^verbatim>\<open>null\<close>, \<open>[5]\<close> (no such node), \<open>[0]\<close> (a submenu header) and the empty path.\<close>

theorem showContextualMenu_no_invocation_witness:
  "invoked (snd (showContextualMenu exampleItems None (exampleWorld None))) = []
   \<and> invoked (snd (showContextualMenu exampleItems None (exampleWorld (Some [5])))) = []
   \<and> invoked (snd (showContextualMenu exampleItems None (exampleWorld (Some [0])))) = []
   \<and> invoked (snd (showContextualMenu exampleItems None (exampleWorld (Some [])))) = []"
proof -
  have r: "host_reply (exampleWorld a) show_contextual_menu
             [ItemsArg (serializeMenuItems exampleItems),
              FlagArg (case None of None \<Rightarrow> False | Some b \<Rightarrow> b)] = Inr a" for a
    by (simp add: exampleWorld_def)
  have f5: "findSubmenuItem exampleItems [5] = Inr None"
    by (simp add: findSubmenuItem_returns syntheticRoot_def exampleItems_def)
  have f0: "findSubmenuItem exampleItems [0] =
      Inr (Some (IMenuItem (Some ''A'') None (Some [IMenuItem (Some ''A1'') (Some ''f'') None])))"
    by (simp add: findSubmenuItem_returns syntheticRoot_def exampleItems_def)
  have i: "invoked (exampleWorld a) = []" for a
    by (simp add: exampleWorld_def)
  have "invoked (snd (showContextualMenu exampleItems None (exampleWorld None))) = []"
    using showContextualMenu_no_invocation [OF r [of None]] i by simp
  moreover have "invoked (snd (showContextualMenu exampleItems None (exampleWorld (Some [5])))) = []"
    using showContextualMenu_no_invocation [OF r [of "Some [5]"]] f5 i by simp
  moreover have "invoked (snd (showContextualMenu exampleItems None (exampleWorld (Some [0])))) = []"
    using showContextualMenu_no_invocation [OF r [of "Some [0]"]] f0 i by simp
  moreover have "invoked (snd (showContextualMenu exampleItems None (exampleWorld (Some [])))) = []"
    using showContextualMenu_no_invocation [OF r [of "Some []"]] i by simp
  ultimately show ?thesis by simp
qed

text \<open>
  C5. In \<open>getIpcFriendlyError\<close> the fallback of the name is drawn from the name itself:
  for every error whose name is absent or empty, the resulting name is the string
  interpolation of that same field (the text \<^verbatim>\<open>undefined\<close> for an absent name, the empty
  string for an empty one), so an absent name is not recovered to a meaningful default.
\<close>

theorem getIpcFriendlyError_name_fallback:
  assumes "error_name e = None \<or> error_name e = Some []"
  shows "name (getIpcFriendlyError toStr e) = template (error_name e)
         \<and> name (getIpcFriendlyError toStr e) = (if error_name e = None then ''undefined'' else [])"
  using assms by (auto simp: getIpcFriendlyError_def or_string_def falsy_def template_def)

theorem getIpcFriendlyError_name_fallback_witness:
  "error_name namelessError = None
   \<and> name (getIpcFriendlyError Error_toString namelessError) = ''undefined''
   \<and> error_name unnamedError = Some []
   \<and> name (getIpcFriendlyError Error_toString unnamedError) = []"
  using getIpcFriendlyError_name_fallback [of namelessError Error_toString]
    getIpcFriendlyError_name_fallback [of unnamedError Error_toString]
  by (simp add: namelessError_def unnamedError_def template_def)

text \<open>
  C6. \<open>getIpcFriendlyError\<close> on an error with the message \<^verbatim>\<open>boom\<close>, the name
  \<^verbatim>\<open>TypeError\<close> and a stack trace (a non-empty string \<open>s\<close>) returns a record with exactly
  those three values; and for every error whose message is empty or absent the record's
  message is the error's string conversion.
\<close>

theorem getIpcFriendlyError_message:
  "(s \<noteq> [] \<longrightarrow>
      getIpcFriendlyError toStr
        \<lparr> error_message = Some ''boom'', error_name = Some ''TypeError'', error_stack = Some s \<rparr>
      = \<lparr> message = ''boom'', name = ''TypeError'', stack = Some s \<rparr>)
   \<and> (error_message e = None \<or> error_message e = Some [] \<longrightarrow>
        message (getIpcFriendlyError toStr e) = toStr e)"
  by (auto simp: getIpcFriendlyError_def or_string_def or_undefined_def falsy_def)

theorem getIpcFriendlyError_message_witness:
  "getIpcFriendlyError Error_toString
     \<lparr> error_message = Some ''boom'', error_name = Some ''TypeError'',
       error_stack = Some ''TypeError: boom at f'' \<rparr>
   = \<lparr> message = ''boom'', name = ''TypeError'', stack = Some ''TypeError: boom at f'' \<rparr>
   \<and> error_message exampleError = Some []
   \<and> message (getIpcFriendlyError Error_toString exampleError) = ''RangeError''"
  using getIpcFriendlyError_message [of "''TypeError: boom at f''" Error_toString exampleError]
  by (simp add: exampleError_def Error_toString_def)

text \<open>
  C8. For every channel and argument tuple, one call of a proxy made by \<open>sendProxy\<close> or
  \<open>invokeProxy\<close> causes exactly one transport call with the same channel name and the
  same arguments, and changes nothing else; the notifier returns no value, the requester
  returns the eventual value or failure as the transport reports it.
\<close>

theorem proxies_forward_once:
  "sendProxy channel args w = ((), w\<lparr>transport_log := transport_log w @ [Send channel args]\<rparr>)
   \<and> invokeProxy channel' args w =
       (host_reply w channel' args, w\<lparr>transport_log := transport_log w @ [Invoke channel' args]\<rparr>)"
  by (simp add: sendProxy_def invokeProxy_def ipcRenderer_send_def ipcRenderer_invoke_def)

theorem proxies_forward_once_witness:
  "sendProxy show_item_in_folder [ItemsArg exampleItems, FlagArg True] (exampleWorld None) =
     ((), (exampleWorld None)
            \<lparr>transport_log := [Send show_item_in_folder [ItemsArg exampleItems, FlagArg True]]\<rparr>)
   \<and> invokeProxy show_contextual_menu [FlagArg False] (exampleWorld (Some [1])) =
     (Inr (Some [1]), (exampleWorld (Some [1]))
            \<lparr>transport_log := [Invoke show_contextual_menu [FlagArg False]]\<rparr>)"
  using proxies_forward_once [of show_item_in_folder "[ItemsArg exampleItems, FlagArg True]"
      "exampleWorld None"]
    proxies_forward_once [of _ "[FlagArg False]" "exampleWorld (Some [1])" show_contextual_menu]
  by (simp add: exampleWorld_def)

text \<open>
  C10. For every error whose stack is the empty string, \<open>getIpcFriendlyError\<close> gives a
  record whose stack is undefined: an empty stack is treated as a missing one.
\<close>

theorem getIpcFriendlyError_empty_stack:
  assumes "error_stack e = Some []"
  shows "stack (getIpcFriendlyError toStr e) = None
         \<and> stack (getIpcFriendlyError toStr e)
             = stack (getIpcFriendlyError toStr (e\<lparr>error_stack := None\<rparr>))"
  using assms by (simp add: getIpcFriendlyError_def or_undefined_def falsy_def)

theorem getIpcFriendlyError_empty_stack_witness:
  "error_stack exampleError = Some []
   \<and> stack (getIpcFriendlyError Error_toString exampleError) = None"
  using getIpcFriendlyError_empty_stack [of exampleError Error_toString]
  by (simp add: exampleError_def)

section \<open>Properties of the operations on the store\<close>

lemma deref_append: "deref h a = Some ob \<Longrightarrow> deref (h @ ext) a = Some ob"
  by (auto simp: deref_def nth_append split: if_splits)

lemma deref_alloc: "alloc h ob = (h1, a) \<Longrightarrow> deref h1 a = Some ob \<and> h1 = h @ [ob]"
  by (auto simp: alloc_def deref_def)

lemma those_map_Some:
  "those (map f xs) = Some ys \<longleftrightarrow> list_all2 (\<lambda>x y. f x = Some y) xs ys"
proof (induction xs arbitrary: ys)
  case Nil
  show ?case by auto
next
  case (Cons x xs)
  show ?case
  proof (cases "f x")
    case None
    then show ?thesis by (auto simp: list_all2_Cons1)
  next
    case (Some y)
    show ?thesis
    proof (cases "those (map f xs)")
      case None
      with Some Cons.IH show ?thesis by (auto simp: list_all2_Cons1)
    next
      case inner: (Some zs)
      with Some Cons.IH show ?thesis by (auto simp: list_all2_Cons1)
    qed
  qed
qed

lemma array_map_extends:
  assumes f: "\<And>h x h' y. f h x = Some (h', y) \<Longrightarrow> \<exists>ext. h' = h @ ext"
  shows "array_map f h xs = Some (h', ys) \<Longrightarrow> \<exists>ext. h' = h @ ext"
proof (induction xs arbitrary: h ys)
  case Nil
  then show ?case by simp
next
  case (Cons x xs)
  from Cons.prems obtain h1 y h2 zs where
    1: "f h x = Some (h1, y)" and 2: "array_map f h1 xs = Some (h2, zs)" and 3: "h' = h2"
    by (auto split: option.splits)
  from f [OF 1] obtain e1 where "h1 = h @ e1" by blast
  moreover from Cons.IH [OF 2 [unfolded 3 [symmetric]]] obtain e2 where "h' = h1 @ e2" by blast
  ultimately show ?case by simp
qed

lemma serializeItem_store_extends:
  assumes r: "\<And>h a h' a'. recur h a = Some (h', a') \<Longrightarrow> \<exists>ext. h' = h @ ext"
  shows "serializeItem_store recur h item = Some (h', item') \<Longrightarrow> \<exists>ext. h' = h @ ext"
  by (auto simp: serializeItem_store_def alloc_def split: option.splits obj.splits dest!: r)

lemma serializeMenuItems_store_extends:
  "serializeMenuItems_store fuel h items = Some (h', out) \<Longrightarrow> \<exists>ext. h' = h @ ext"
proof (induction fuel arbitrary: h items h' out)
  case 0
  then show ?case by simp
next
  case (Suc fuel)
  from Suc.prems obtain elems h1 elems' where
    "array_map (serializeItem_store (serializeMenuItems_store fuel)) h elems = Some (h1, elems')"
    and h': "h' = h1 @ [ArrayObj elems']"
    by (auto simp: alloc_def split: option.splits obj.splits)
  then have "\<exists>ext. h1 = h @ ext"
    using array_map_extends [where f = "serializeItem_store (serializeMenuItems_store fuel)"]
      serializeItem_store_extends [where recur = "serializeMenuItems_store fuel"] Suc.IH
    by blast
  with h' show ?case by auto
qed


lemma readItem_append:
  assumes rd: "\<And>sa items. readSub h sa = Some items \<Longrightarrow> readSub (h @ ext) sa = Some items"
  shows "readItem readSub h item = Some m \<Longrightarrow> readItem readSub (h @ ext) item = Some m"
proof -
  assume a: "readItem readSub h item = Some m"
  then obtain i act sub where d: "deref h item = Some (ItemObj i act sub)"
    by (auto simp: readItem_def split: option.splits obj.splits)
  then have d': "deref (h @ ext) item = Some (ItemObj i act sub)"
    by (rule deref_append)
  show ?thesis
  proof (cases sub)
    case None
    with a d d' show ?thesis by (simp add: readItem_def)
  next
    case (Some sa)
    with a d obtain items where "readSub h sa = Some items" "m = IMenuItem i act (Some items)"
      by (auto simp: readItem_def split: option.splits)
    with rd [of sa items] d' Some show ?thesis by (simp add: readItem_def)
  qed
qed

lemma readItems_append:
  "readItems depth h items = Some tree \<Longrightarrow> readItems depth (h @ ext) items = Some tree"
proof (induction depth arbitrary: items tree)
  case 0
  then show ?case by simp
next
  case (Suc depth)
  from Suc.prems obtain elems where d: "deref h items = Some (ArrayObj elems)"
    and t: "list_all2 (\<lambda>e m. readItem (readItems depth) h e = Some m) elems tree"
    by (auto simp: those_map_Some split: option.splits obj.splits)
  have "list_all2 (\<lambda>e m. readItem (readItems depth) (h @ ext) e = Some m) elems tree"
    using t by (rule list_all2_mono) (rule readItem_append, rule Suc.IH)
  with deref_append [OF d] show ?case by (simp add: those_map_Some)
qed


text \<open>
  On a store that holds a tree, \<open>serializeMenuItems_store\<close> returns, and the new array it
  returns holds the serialised tree: the store model and the model on trees agree.
\<close>

lemma serializeMenuItems_map: "serializeMenuItems items = map serialized items"
  by (subst serializeMenuItems.simps) (simp add: serialized_def)

lemma deref_new: "deref (h @ [ob]) (length h) = Some ob"
  by (simp add: deref_def)

lemma serializeItem_store_refines:
  assumes IH: "\<And>(h :: 'a store) a t. readItems n h a = Some t \<Longrightarrow>
      \<exists>h' a'. serializeMenuItems_store n h a = Some (h', a')
        \<and> readItems n h' a' = Some (serializeMenuItems t)"
    and m: "readItem (readItems n) (h :: 'a store) e = Some m"
  shows "\<exists>h1 e'. serializeItem_store (serializeMenuItems_store n) h e = Some (h1, e')
      \<and> readItem (readItems n) h1 e' = Some (serialized m) \<and> (\<exists>ext. h1 = h @ ext)"
proof -
  from m obtain i act sub where d: "deref h e = Some (ItemObj i act sub)"
    by (auto simp: readItem_def split: option.splits obj.splits)
  show ?thesis
  proof (cases sub)
    case None
    with m d have m': "m = IMenuItem i act None" by (simp add: readItem_def)
    have "serializeItem_store (serializeMenuItems_store n) h e
            = Some (h @ [ItemObj i None None], length h)"
      using d None by (simp add: serializeItem_store_def alloc_def)
    moreover have "readItem (readItems n) (h @ [ItemObj i None None]) (length h)
            = Some (serialized m)"
      by (simp add: readItem_def deref_new m' serialized_def)
    ultimately show ?thesis by blast
  next
    case (Some sa)
    with m d obtain items where its: "readItems n h sa = Some items"
      and m': "m = IMenuItem i act (Some items)"
      by (auto simp: readItem_def split: option.splits)
    from IH [OF its] obtain h' a' where s: "serializeMenuItems_store n h sa = Some (h', a')"
      and r: "readItems n h' a' = Some (serializeMenuItems items)" by blast
    from serializeMenuItems_store_extends [OF s] obtain ext where ext: "h' = h @ ext" by blast
    let ?ob = "ItemObj i None (Some a')"
    have "serializeItem_store (serializeMenuItems_store n) h e = Some (h' @ [?ob], length h')"
      using d Some s by (simp add: serializeItem_store_def alloc_def)
    moreover have "readItem (readItems n) (h' @ [?ob]) (length h') = Some (serialized m)"
      using readItems_append [OF r, of "[?ob]"]
      by (simp add: readItem_def deref_new m' serialized_def)
    moreover have "h' @ [?ob] = h @ (ext @ [?ob])" using ext by simp
    ultimately show ?thesis by blast
  qed
qed

lemma array_map_refines:
  assumes IH: "\<And>(h :: 'a store) a t. readItems n h a = Some t \<Longrightarrow>
      \<exists>h' a'. serializeMenuItems_store n h a = Some (h', a')
        \<and> readItems n h' a' = Some (serializeMenuItems t)"
  shows "list_all2 (\<lambda>e m. readItem (readItems n) (h :: 'a store) e = Some m) es ms \<Longrightarrow>
     \<exists>h' es'. array_map (serializeItem_store (serializeMenuItems_store n)) h es = Some (h', es')
       \<and> list_all2 (\<lambda>e' m. readItem (readItems n) h' e' = Some (serialized m)) es' ms"
proof (induction es arbitrary: h ms)
  case Nil
  then show ?case by simp
next
  case (Cons e es)
  from Cons.prems obtain m ms' where ms: "ms = m # ms'"
    and m: "readItem (readItems n) h e = Some m"
    and rest: "list_all2 (\<lambda>e m. readItem (readItems n) h e = Some m) es ms'"
    by (auto simp: list_all2_Cons1)
  from serializeItem_store_refines [OF IH m] obtain h1 e' ext where
    s1: "serializeItem_store (serializeMenuItems_store n) h e = Some (h1, e')"
    and r1: "readItem (readItems n) h1 e' = Some (serialized m)" and ext: "h1 = h @ ext"
    by blast
  have "list_all2 (\<lambda>e m. readItem (readItems n) h1 e = Some m) es ms'"
    unfolding ext using rest
    by (rule list_all2_mono) (rule readItem_append, rule readItems_append)
  from Cons.IH [OF this] obtain h2 es' where
    s2: "array_map (serializeItem_store (serializeMenuItems_store n)) h1 es = Some (h2, es')"
    and r2: "list_all2 (\<lambda>e' m. readItem (readItems n) h2 e' = Some (serialized m)) es' ms'"
    by blast
  from array_map_extends [OF _ s2] obtain ext2 where ext2: "h2 = h1 @ ext2"
    using serializeItem_store_extends [where recur = "serializeMenuItems_store n"]
      serializeMenuItems_store_extends [where fuel = n]
    by blast
  have "readItem (readItems n) h2 e' = Some (serialized m)"
    unfolding ext2 using r1 by (rule readItem_append [rotated]) (rule readItems_append)
  with s1 s2 r2 ms show ?case by simp
qed

lemma serializeMenuItems_store_refines:
  "readItems n h a = Some t \<Longrightarrow>
     \<exists>h' a'. serializeMenuItems_store n h a = Some (h', a')
       \<and> readItems n h' a' = Some (serializeMenuItems t)"
proof (induction n arbitrary: h a t)
  case 0
  then show ?case by simp
next
  case (Suc n)
  from Suc.prems obtain elems where d: "deref h a = Some (ArrayObj elems)"
    and t: "list_all2 (\<lambda>e m. readItem (readItems n) h e = Some m) elems t"
    by (auto simp: those_map_Some split: option.splits obj.splits)
  from array_map_refines [OF Suc.IH t] obtain h1 elems' where
    s: "array_map (serializeItem_store (serializeMenuItems_store n)) h elems = Some (h1, elems')"
    and r: "list_all2 (\<lambda>e' m. readItem (readItems n) h1 e' = Some (serialized m)) elems' t"
    by blast
  let ?ob = "ArrayObj elems'"
  have "serializeMenuItems_store (Suc n) h a = Some (h1 @ [?ob], length h1)"
    using d s by (simp add: alloc_def)
  moreover have "list_all2 (\<lambda>e' m. readItem (readItems n) (h1 @ [?ob]) e' = Some m)
      elems' (map serialized t)"
    unfolding list_all2_map2 using r
    by (rule list_all2_mono) (rule readItem_append, rule readItems_append)
  then have "readItems (Suc n) (h1 @ [?ob]) (length h1) = Some (serializeMenuItems t)"
    by (simp add: deref_new those_map_Some serializeMenuItems_map)
  ultimately show ?case by blast
qed


text \<open>The same for \<open>findSubmenuItem\<close>, from any item of the store.\<close>

lemma store_loop_undefined: "findSubmenuItem_store_loop h None path = Some None"
  by (cases path) simp_all

lemma findSubmenuItem_store_loop_refines:
  "readItem (readItems n) h fa = Some m \<Longrightarrow>
     \<exists>r. findSubmenuItem_store_loop h (Some fa) path = Some r
       \<and> (case r of
             None \<Rightarrow> findSubmenuItem_loop (Some m) path = Inr None
           | Some node \<Rightarrow>
               \<exists>k m'. readItem (readItems k) h node = Some m'
                 \<and> findSubmenuItem_loop (Some m) path = Inr (Some m'))"
proof (induction path arbitrary: fa m n)
  case Nil
  then show ?case by auto
next
  case (Cons index rest)
  from Cons.prems obtain i act sub where d: "deref h fa = Some (ItemObj i act sub)"
    by (auto simp: readItem_def split: option.splits obj.splits)
  show ?case
  proof (cases sub)
    case None
    with Cons.prems d have "m = IMenuItem i act None" by (simp add: readItem_def)
    with d None show ?thesis by (simp add: get_submenu_def)
  next
    case (Some sa)
    with Cons.prems d obtain items where its: "readItems n h sa = Some items"
      and m: "m = IMenuItem i act (Some items)"
      by (auto simp: readItem_def split: option.splits)
    from its obtain n' where n: "n = Suc n'" by (cases n) auto
    from its n obtain elems where da: "deref h sa = Some (ArrayObj elems)"
      and t: "list_all2 (\<lambda>e m. readItem (readItems n') h e = Some m) elems items"
      by (auto simp: those_map_Some split: option.splits obj.splits)
    have len: "length elems = length items" using t by (rule list_all2_lengthD)
    have store: "findSubmenuItem_store_loop h (Some fa) (index # rest)
        = findSubmenuItem_store_loop h (array_index elems index) rest"
      using d Some da by simp
    have pure: "findSubmenuItem_loop (Some m) (index # rest)
        = findSubmenuItem_loop (array_index items index) rest"
      using m by (simp add: get_submenu_def)
    show ?thesis
    proof (cases "0 \<le> index \<and> index < int (length elems)")
      case True
      then have "nat index < length elems" by auto
      with t have "readItem (readItems n') h (elems ! nat index) = Some (items ! nat index)"
        by (rule list_all2_nthD)
      note step = Cons.IH [OF this]
      from True len have ai: "array_index elems index = Some (elems ! nat index)"
        "array_index items index = Some (items ! nat index)"
        by (simp_all add: array_index_def)
      show ?thesis
        unfolding store pure ai by (rule step)
    next
      case False
      with len have "array_index elems index = None" "array_index items index = None"
        by (auto simp: array_index_def)
      then show ?thesis
        unfolding store pure by (simp add: store_loop_undefined loop_undefined)
    qed
  qed
qed

text \<open>
  C9. Neither \<open>serializeMenuItems\<close> nor \<open>findSubmenuItem\<close> mutates the input menu tree.
  For every store that holds a tree at \<open>items\<close>: serialising and then resolving a path
  against the same \<open>items\<close> both return; every object that existed before is unchanged
  after each of them (the old store is an initial segment of the new one); the tree read
  at \<open>items\<close> is equal before and after; the new array holds the serialised tree; and
  what \<open>findSubmenuItem\<close> reads after the round trip is the node of the unchanged tree.
\<close>

theorem serialize_and_find_do_not_mutate:
  assumes tree: "readItems depth h items = Some tree"
  shows "\<exists>h1 out h2 found.
           serializeMenuItems_store depth h items = Some (h1, out)
         \<and> findSubmenuItem_store h1 items path = (h2, Some found)
         \<and> take (length h) h1 = h \<and> take (length h) h2 = h
         \<and> readItems depth h1 items = Some tree \<and> readItems depth h2 items = Some tree
         \<and> readItems depth h1 out = Some (serializeMenuItems tree)
         \<and> (case found of
               None \<Rightarrow> findSubmenuItem tree path = Inr None
             | Some node \<Rightarrow>
                 \<exists>k m. readItem (readItems k) h2 node = Some m
                   \<and> findSubmenuItem tree path = Inr (Some m))"
proof -
  from serializeMenuItems_store_refines [OF tree] obtain h1 out where
    s: "serializeMenuItems_store depth h items = Some (h1, out)"
    and out: "readItems depth h1 out = Some (serializeMenuItems tree)" by blast
  from serializeMenuItems_store_extends [OF s] obtain ext where h1: "h1 = h @ ext" by blast
  have t1: "readItems depth h1 items = Some tree"
    unfolding h1 using tree by (rule readItems_append)
  let ?root = "ItemObj None None (Some items)"
  let ?h2 = "h1 @ [?root]"
  have t2: "readItems depth ?h2 items = Some tree"
    using t1 by (rule readItems_append)
  then have "readItem (readItems depth) ?h2 (length h1) = Some (syntheticRoot tree)"
    by (simp add: readItem_def deref_new syntheticRoot_def)
  from findSubmenuItem_store_loop_refines [OF this, of path] obtain found where
    f: "findSubmenuItem_store_loop ?h2 (Some (length h1)) path = Some found"
    and r: "case found of
              None \<Rightarrow> findSubmenuItem tree path = Inr None
            | Some node \<Rightarrow>
                \<exists>k m. readItem (readItems k) ?h2 node = Some m
                  \<and> findSubmenuItem tree path = Inr (Some m)"
    unfolding findSubmenuItem_def by blast
  have "findSubmenuItem_store h1 items path = (?h2, Some found)"
    using f by (simp add: findSubmenuItem_store_def alloc_def)
  moreover have "take (length h) h1 = h" "take (length h) ?h2 = h"
    unfolding h1 by simp_all
  ultimately show ?thesis using s t1 t2 out r by blast
qed

lemma exampleStore_tree: "readItems 2 exampleStore 4 = Some exampleItems"
  by (simp add: numeral_2_eq_2 exampleStore_def exampleItems_def deref_def readItem_def)

theorem serialize_and_find_do_not_mutate_witness:
  "readItems 2 exampleStore 4 = Some exampleItems
   \<and> serializeMenuItems_store 2 exampleStore 4 =
       Some (exampleStore @
               [ItemObj (Some ''A1'') None None, ArrayObj [5],
                ItemObj (Some ''A'') None (Some 6), ItemObj (Some ''B'') None None,
                ArrayObj [7, 8]], 9)
   \<and> (\<exists>h1 out h2 found.
           serializeMenuItems_store 2 exampleStore 4 = Some (h1, out)
         \<and> findSubmenuItem_store h1 4 [0, 0] = (h2, Some found)
         \<and> take (length exampleStore) h1 = exampleStore
         \<and> take (length exampleStore) h2 = exampleStore
         \<and> readItems 2 h1 4 = Some exampleItems \<and> readItems 2 h2 4 = Some exampleItems
         \<and> readItems 2 h1 out = Some (serializeMenuItems exampleItems)
         \<and> (case found of
               None \<Rightarrow> findSubmenuItem exampleItems [0, 0] = Inr None
             | Some node \<Rightarrow>
                 \<exists>k m. readItem (readItems k) h2 node = Some m
                   \<and> findSubmenuItem exampleItems [0, 0] = Inr (Some m)))"
proof -
  have "serializeMenuItems_store 2 exampleStore 4 =
       Some (exampleStore @
               [ItemObj (Some ''A1'') None None, ArrayObj [5],
                ItemObj (Some ''A'') None (Some 6), ItemObj (Some ''B'') None None,
                ArrayObj [7, 8]], 9)"
    by (simp add: numeral_2_eq_2 exampleStore_def deref_def alloc_def serializeItem_store_def)
  with serialize_and_find_do_not_mutate [OF exampleStore_tree, of "[0, 0]"] exampleStore_tree
  show ?thesis by simp
qed

end
